theory Spec2Isabelle
  imports Complex_Main "HOL-Library.Word"
begin

section \<open>Voiceover Studio: the controllers of the single view component\<close>

text \<open>
  The repository is one React component, \<open>VoiceoverStudio\<close>. This theory embeds its
  derived metrics (\<open>wordCount\<close>, the estimated seconds, \<open>formattedDuration\<close>) as pure
  functions and its two controllers (speech preview, recording booth) as handlers over an
  explicit state record. The browser is part of the state: the speech queue, the
  log of released object URLs, the diagnostic console.
\<close>

subsection \<open>Strings\<close>

text \<open>
  A script is a JavaScript string: a sequence of UTF-16 code units. The strings the
  component produces itself (identifiers, formatted numbers) are ASCII and are kept as
  \<open>string\<close>. \<open>utf16\<close> reads an ASCII literal as a script.
\<close>

type_synonym code_unit = "16 word"
type_synonym jsstring = "code_unit list"

definition utf16 :: "string \<Rightarrow> jsstring" where
  "utf16 s = map of_char s"

text \<open>
  The code units matched by \<open>\s\<close> in a regular expression and stripped by
  \<open>String.prototype.trim\<close>: ECMAScript's WhiteSpace and LineTerminator (TAB, LF, VT, FF,
  CR, SP, NBSP, U+1680, U+2000..U+200A, LS, PS, U+202F, U+205F, U+3000, U+FEFF).
\<close>

definition isWhiteSpace :: "code_unit \<Rightarrow> bool" where
  "isWhiteSpace c \<longleftrightarrow>
     c \<in> {0x9, 0xA, 0xB, 0xC, 0xD, 0x20, 0xA0, 0x1680, 0x2028, 0x2029, 0x202F, 0x205F,
          0x3000, 0xFEFF}
     \<or> (0x2000 \<le> c \<and> c \<le> 0x200A)"

text \<open>\<open>s.trim()\<close>: leading and trailing white space removed.\<close>

definition trim :: "jsstring \<Rightarrow> jsstring" where
  "trim s = rev (dropWhile isWhiteSpace (rev (dropWhile isWhiteSpace s)))"

text \<open>
  \<open>s.split(/\s+/)\<close>. The pattern never matches the empty string, so the splitter scans
  for the next white-space code unit, closes the substring collected so far, skips the
  whole run of white space (the match is greedy) and goes on; the rest of the string is
  the last substring. A leading or trailing run therefore yields an empty substring, and
  the empty string yields one empty substring. \<open>tok\<close> is the substring being collected.
\<close>

function split_ws :: "jsstring \<Rightarrow> jsstring \<Rightarrow> jsstring list" where
  "split_ws tok [] = [tok]"
| "split_ws tok (c # cs) =
     (if isWhiteSpace c then tok # split_ws [] (dropWhile isWhiteSpace cs)
      else split_ws (tok @ [c]) cs)"
  by pat_completeness auto
termination
  by (relation "measure (\<lambda>(tok, s). length s)")
     (auto simp: length_dropWhile_le less_Suc_eq_le)

definition split_whitespace :: "jsstring \<Rightarrow> jsstring list" where
  "split_whitespace s = split_ws [] s"

text \<open>
  \<^verbatim>\<open>
  const wordCount = useMemo(() => {
    if (!script.trim()) { return 0; }
    return script.trim().split(/\s+/).length;
  }, [script]);
  \<close>
  The empty string is the only falsy string.
\<close>

definition wordCount :: "jsstring \<Rightarrow> nat" where
  "wordCount script =
     (if trim script = [] then 0 else length (split_whitespace (trim script)))"

text \<open>
  The words of a string as the specification names them: its white-space-delimited
  tokens, the maximal runs of code units that are not white space.
\<close>

function tokens :: "jsstring \<Rightarrow> jsstring list" where
  "tokens [] = []"
| "tokens (c # cs) =
     (if isWhiteSpace c then tokens cs
      else (c # takeWhile (\<lambda>x. \<not> isWhiteSpace x) cs)
             # tokens (dropWhile (\<lambda>x. \<not> isWhiteSpace x) cs))"
  by pat_completeness auto
termination
  by (relation "measure length") (auto simp: length_dropWhile_le less_Suc_eq_le)

subsection \<open>Numbers as text\<close>

text \<open>
  The decimal digits of a natural number, most significant first: what
  \<open>Number.prototype.toString\<close> and a template literal give for a non-negative integer
  below \<open>10^21\<close> (beyond that JavaScript switches to exponent notation, which no value
  of this component reaches).
\<close>

definition digit_char :: "nat \<Rightarrow> char" where
  "digit_char d = char_of (48 + d)"

fun digits :: "nat \<Rightarrow> string" where
  "digits n =
     (if n < 10 then [digit_char n] else digits (n div 10) @ [digit_char (n mod 10)])"

declare digits.simps [simp del]

definition toString :: "int \<Rightarrow> string" where
  "toString n = (if n < 0 then CHR ''-'' # digits (nat (- n)) else digits (nat n))"

text \<open>\<open>s.padStart(n, c)\<close> with a one-character filler.\<close>

definition padStart :: "nat \<Rightarrow> char \<Rightarrow> string \<Rightarrow> string" where
  "padStart n c s = replicate (n - length s) c @ s"

text \<open>Reading a digit string back, to state what a formatted number denotes.\<close>

definition is_digit :: "char \<Rightarrow> bool" where
  "is_digit c \<longleftrightarrow> 48 \<le> (of_char c :: nat) \<and> (of_char c :: nat) \<le> 57"

definition digit_val :: "char \<Rightarrow> nat" where
  "digit_val c = of_char c - 48"

definition decimal_value :: "string \<Rightarrow> nat" where
  "decimal_value s = foldl (\<lambda>acc c. 10 * acc + digit_val c) 0 s"

subsection \<open>formattedDuration\<close>

text \<open>
  \<^verbatim>\<open>
  const formattedDuration = (ms: number) => {
    const totalSeconds = Math.max(0, Math.round(ms / 1000));
    const minutes = Math.floor(totalSeconds / 60);
    const seconds = totalSeconds % 60;
    return `${minutes}:${seconds.toString().padStart(2, '0')}`;
  };
  \<close>
  The argument is the duration of a take, a difference of two \<open>Date.now()\<close> readings
  (or 0): an integer. On integers of magnitude below \<open>2^53\<close> the double-precision
  quotients \<open>ms / 1000\<close> and \<open>totalSeconds / 60\<close> round and floor to the same integers
  as the exact quotients: a quotient that is not a half-integer (an integer) is at least
  \<open>1/1000\<close> (\<open>1/60\<close>) away from the next one, more than the rounding error of a
  double in that range. So the quotients are taken in the rationals. \<open>Math.round\<close>
  rounds to the nearest integer, a tie towards \<open>+\<infinity>\<close>.
\<close>

definition Math_round :: "rat \<Rightarrow> int" where
  "Math_round x = floor (x + 1 / 2)"

definition Math_floor :: "rat \<Rightarrow> int" where
  "Math_floor x = floor x"

definition formattedDuration :: "int \<Rightarrow> string" where
  "formattedDuration ms =
     (let totalSeconds = max 0 (Math_round (of_int ms / 1000));
          minutes = Math_floor (of_int totalSeconds / 60);
          seconds = totalSeconds mod 60
      in toString minutes @ '':'' @ padStart 2 CHR ''0'' (toString seconds))"

text \<open>The two fields of a formatted duration, split at the colon.\<close>

definition minutes_field :: "string \<Rightarrow> string" where
  "minutes_field s = takeWhile (\<lambda>c. c \<noteq> CHR '':'') s"

definition seconds_field :: "string \<Rightarrow> string" where
  "seconds_field s = tl (dropWhile (\<lambda>c. c \<noteq> CHR '':'') s)"

subsection \<open>The estimated seconds\<close>

text \<open>
  A JavaScript number is an IEEE-754 double: NaN, an infinity, or a finite value with a
  sign. A finite value is kept as the rational it is; \<open>Finite 0\<close> is the zero \<open>+0\<close> and
  \<open>NegZero\<close> is the zero \<open>-0\<close>, which division tells apart.
\<close>

datatype number = Finite rat | NegZero | PosInf | NegInf | NaN















section \<open>The component state and its handlers\<close>

subsection \<open>Data\<close>

text \<open>
  \<^verbatim>\<open>type Recording = { id: string; url: string; createdAt: number; duration: number };\<close>
  The field \<open>id\<close> is named \<open>rec_id\<close> here. An object URL is kept as the number the
  browser's allocator gave it: \<open>URL.createObjectURL\<close> never returns the same URL twice.
\<close>

type_synonym object_url = nat

record Recording =
  rec_id :: string
  url :: object_url
  createdAt :: int
  duration :: int

record SpeechSynthesisVoice =
  voice_name :: string
  voice_lang :: string

text \<open>
  A \<open>SpeechSynthesisUtterance\<close> as \<open>speak\<close> fills it. \<open>uid\<close> is the identity of the
  object: the browser's events name the utterance they are about.
\<close>

record SpeechSynthesisUtterance =
  uid :: nat
  utt_text :: jsstring
  utt_pitch :: number
  utt_rate :: number
  utt_voice :: "SpeechSynthesisVoice option"

text \<open>
  A \<open>MediaRecorder\<close> with the stream it records: its \<open>state\<close> attribute (the component
  never pauses) and whether the tracks of the stream are live.
\<close>

datatype RecordingState = Inactive | Capturing

record MediaRecorder =
  rec_state :: RecordingState
  tracks_live :: bool

text \<open>The rejections of \<open>navigator.mediaDevices.getUserMedia\<close>.\<close>

datatype media_error = NotAllowedError | NotFoundError | NotReadableError | OverconstrainedError

text \<open>
  The state of the mounted component: its \<open>useState\<close> and \<open>useRef\<close> cells, then the
  part of the browser it acts on. \<open>synthQueue\<close> is the utterance queue of
  \<open>window.speechSynthesis\<close>; \<open>revoked\<close> logs every call of \<open>URL.revokeObjectURL\<close>, in
  order; \<open>console\<close> logs every \<open>console.error\<close>. \<open>effectRecordings\<close> is the value of
  \<open>recordings\<close> captured by the cleanup closure that the second effect registered at the
  last commit. A chunk of audio is kept as its size, all the component looks at.
\<close>

record studio =
  script :: jsstring
  voices :: "SpeechSynthesisVoice list"
  selectedVoice :: string
  pitch :: number
  rate :: number
  isSpeaking :: bool
  isRecording :: bool
  recordings :: "Recording list"
  recorderRef :: "MediaRecorder option"
  recordStartRef :: "int option"
  audioChunksRef :: "nat list"
  speechSupported :: bool
  recordingSupported :: bool
  synthQueue :: "SpeechSynthesisUtterance list"
  utterancesMade :: nat
  objectUrlsMade :: nat
  revoked :: "object_url list"
  console :: "(string \<times> media_error) list"
  effectRecordings :: "Recording list"

definition defaultScript :: jsstring where
  "defaultScript = utf16
     ''Hey there! Welcome to your voiceover studio. Drop in your script, fine-tune the tone, and choose a voice that fits your story. Ready when you are.''"

text \<open>
  The state after the first commit. The two capability flags are what the first effect
  found in the browser (\<open>'speechSynthesis' in window\<close>, \<open>'mediaDevices' in navigator\<close>).
\<close>

definition initial :: "bool \<Rightarrow> bool \<Rightarrow> studio" where
  "initial speechOk recordingOk =
     \<lparr> script = defaultScript, voices = [], selectedVoice = [],
       pitch = Finite 1, rate = Finite 1,
       isSpeaking = False, isRecording = False, recordings = [],
       recorderRef = None, recordStartRef = None, audioChunksRef = [],
       speechSupported = speechOk, recordingSupported = recordingOk,
       synthQueue = [], utterancesMade = 0, objectUrlsMade = 0, revoked = [],
       console = [], effectRecordings = [] \<rparr>"

subsection \<open>The effect that releases the object URLs\<close>

text \<open>
  \<^verbatim>\<open>
  useEffect(() => {
    return () => {
      window.speechSynthesis?.cancel();
      recordings.forEach((recording) => URL.revokeObjectURL(recording.url));
    };
  }, [recordings]);
  \<close>
  \<open>speechSynthesis.cancel()\<close> removes every utterance from the queue. React runs the
  cleanup of an effect when the component unmounts and, before running the effect
  again, after every commit in which a dependency changed (compared by \<open>Object.is\<close>).
  The dependency is the array \<open>recordings\<close>; both callers of \<open>setRecordings\<close> install
  a freshly allocated array (a spread, a \<open>filter\<close>), so each of their updates is followed
  by \<open>rerender\<close>: the cleanup registered at the previous commit, then the effect again,
  whose closure captures the new array.
\<close>

definition synth_cancel :: "studio \<Rightarrow> studio" where
  "synth_cancel s = s\<lparr>synthQueue := []\<rparr>"

definition effect_cleanup :: "studio \<Rightarrow> studio" where
  "effect_cleanup s =
     (synth_cancel s)\<lparr>revoked := revoked s @ map url (effectRecordings s)\<rparr>"

definition rerender :: "studio \<Rightarrow> studio" where
  "rerender s = (effect_cleanup s)\<lparr>effectRecordings := recordings s\<rparr>"

definition unmount :: "studio \<Rightarrow> studio" where
  "unmount s = effect_cleanup s"

subsection \<open>Speech preview\<close>

text \<open>
  \<^verbatim>\<open>
  const speak = () => {
    if (!speechSupported || !script.trim()) { return; }
    window.speechSynthesis.cancel();
    const utterance = new SpeechSynthesisUtterance(script);
    utterance.pitch = pitch;
    utterance.rate = rate;
    const voice = voices.find((v) => v.name === selectedVoice);
    if (voice) { utterance.voice = voice; }
    utterance.onstart = () => setIsSpeaking(true);
    utterance.onend = () => setIsSpeaking(false);
    utterance.onerror = () => setIsSpeaking(false);
    window.speechSynthesis.speak(utterance);
  };
  \<close>
  \<open>speechSynthesis.speak\<close> appends the utterance to the queue.
\<close>

definition speak :: "studio \<Rightarrow> studio" where
  "speak s =
     (if \<not> speechSupported s \<or> trim (script s) = [] then s
      else
        (let s1 = synth_cancel s;
             utterance = \<lparr> uid = utterancesMade s1, utt_text = script s1,
                           utt_pitch = pitch s1, utt_rate = rate s1,
                           utt_voice = find (\<lambda>v. voice_name v = selectedVoice s1) (voices s1) \<rparr>
         in s1\<lparr> utterancesMade := Suc (utterancesMade s1),
                synthQueue := synthQueue s1 @ [utterance] \<rparr>))"

text \<open>
  \<^verbatim>\<open>
  const cancelSpeech = () => {
    window.speechSynthesis?.cancel();
    setIsSpeaking(false);
  };
  \<close>
\<close>

definition cancelSpeech :: "studio \<Rightarrow> studio" where
  "cancelSpeech s = (synth_cancel s)\<lparr>isSpeaking := False\<rparr>"

text \<open>The three handlers that \<open>speak\<close> attaches to every utterance.\<close>

definition onstart :: "studio \<Rightarrow> studio" where
  "onstart s = s\<lparr>isSpeaking := True\<rparr>"

definition onend :: "studio \<Rightarrow> studio" where
  "onend s = s\<lparr>isSpeaking := False\<rparr>"

definition onerror :: "studio \<Rightarrow> studio" where
  "onerror s = s\<lparr>isSpeaking := False\<rparr>"

text \<open>The browser takes an utterance that ended or failed out of the queue.\<close>

definition synth_finish :: "nat \<Rightarrow> studio \<Rightarrow> studio" where
  "synth_finish u s = s\<lparr>synthQueue := filter (\<lambda>x. uid x \<noteq> u) (synthQueue s)\<rparr>"

subsection \<open>Recording booth\<close>

text \<open>
  \<^verbatim>\<open>
  const requestRecordingStream = async () => {
    const stream = await navigator.mediaDevices.getUserMedia({ audio: true });
    const recorder = new MediaRecorder(stream);
    recorderRef.current = recorder;
    audioChunksRef.current = [];
    recorder.ondataavailable = (event) => { ... };
    recorder.onstop = () => { ... };
    recorder.start();
    recordStartRef.current = Date.now();
    setIsRecording(true);
  };
  \<close>
  The answer of \<open>getUserMedia\<close> and the reading of the clock are arguments. A rejection
  leaves the function at its first statement, as the value \<open>Inl\<close>. On a granted stream
  the constructor and \<open>start()\<close> are taken to succeed.
\<close>

definition requestRecordingStream ::
  "media_error + unit \<Rightarrow> int \<Rightarrow> studio \<Rightarrow> media_error + studio" where
  "requestRecordingStream getUserMedia now s =
     (case getUserMedia of
        Inl e \<Rightarrow> Inl e
      | Inr stream \<Rightarrow>
          Inr (s\<lparr> recorderRef := Some \<lparr> rec_state = Capturing, tracks_live = True \<rparr>,
                  audioChunksRef := [],
                  recordStartRef := Some now,
                  isRecording := True \<rparr>))"

text \<open>
  \<^verbatim>\<open>
  recorder.ondataavailable = (event) => {
    if (event.data.size > 0) { audioChunksRef.current.push(event.data); }
  };
  \<close>
\<close>

definition ondataavailable :: "nat \<Rightarrow> studio \<Rightarrow> studio" where
  "ondataavailable sz s =
     (if 0 < sz then s\<lparr>audioChunksRef := audioChunksRef s @ [sz]\<rparr> else s)"

text \<open>
  \<^verbatim>\<open>
  recorder.onstop = () => {
    const durationMs = recordStartRef.current ? Date.now() - recordStartRef.current : 0;
    const blob = new Blob(audioChunksRef.current, { type: 'audio/webm' });
    const url = URL.createObjectURL(blob);
    setRecordings((prev) => [
      { id: `${Date.now()}`, url, createdAt: Date.now(), duration: durationMs },
      ...prev,
    ]);
    audioChunksRef.current = [];
    recordStartRef.current = null;
  };
  \<close>
  The clock is read three times: \<open>now1\<close> for the duration, \<open>now2\<close> for the identifier,
  \<open>now3\<close> for \<open>createdAt\<close>. The test of \<open>recordStartRef.current\<close> is a truthiness test:
  \<open>null\<close> and the number 0 both fail it.
\<close>

definition onstop :: "int \<Rightarrow> int \<Rightarrow> int \<Rightarrow> studio \<Rightarrow> studio" where
  "onstop now1 now2 now3 s =
     (let durationMs = (case recordStartRef s of
                          None \<Rightarrow> 0
                        | Some start \<Rightarrow> if start = 0 then 0 else now1 - start);
          u = objectUrlsMade s
      in s\<lparr> objectUrlsMade := Suc u,
             recordings := \<lparr> rec_id = toString now2, url = u, createdAt = now3,
                              duration = durationMs \<rparr> # recordings s,
             audioChunksRef := [],
             recordStartRef := None \<rparr>)"

text \<open>
  The last three statements of \<open>toggleRecording\<close>, which the specification calls
  \<open>stopRecording\<close>:
  \<^verbatim>\<open>
    recorderRef.current?.stop();
    recorderRef.current?.stream.getTracks().forEach((track) => track.stop());
    setIsRecording(false);
  \<close>
  \<open>MediaRecorder.stop()\<close> returns at once on an inactive recorder; on a recording one it
  makes the recorder inactive and queues the \<open>dataavailable\<close> and \<open>stop\<close> events.
\<close>

definition stopRecording :: "studio \<Rightarrow> studio" where
  "stopRecording s =
     s\<lparr> recorderRef :=
           map_option (\<lambda>r. r\<lparr> rec_state := Inactive, tracks_live := False \<rparr>) (recorderRef s),
         isRecording := False \<rparr>"

text \<open>
  \<^verbatim>\<open>
  const toggleRecording = async () => {
    if (!recordingSupported) { return; }
    if (!isRecording) {
      try { await requestRecordingStream(); }
      catch (error) { console.error('Unable to access microphone', error); }
      return;
    }
    recorderRef.current?.stop();
    recorderRef.current?.stream.getTracks().forEach((track) => track.stop());
    setIsRecording(false);
  };
  \<close>
  The click and the answer of \<open>getUserMedia\<close> are one step here.
\<close>

definition toggleRecording :: "media_error + unit \<Rightarrow> int \<Rightarrow> studio \<Rightarrow> studio" where
  "toggleRecording getUserMedia now s =
     (if \<not> recordingSupported s then s
      else if \<not> isRecording s then
        (case requestRecordingStream getUserMedia now s of
           Inl error \<Rightarrow> s\<lparr>console := console s @ [(''Unable to access microphone'', error)]\<rparr>
         | Inr s' \<Rightarrow> s')
      else stopRecording s)"

text \<open>
  \<^verbatim>\<open>
  const deleteRecording = (id: string) => {
    setRecordings((prev) => {
      const target = prev.find((item) => item.id === id);
      if (target) { URL.revokeObjectURL(target.url); }
      return prev.filter((item) => item.id !== id);
    });
  };
  \<close>
  The state after the updater has run; the commit that follows is \<open>rerender\<close>.
\<close>

definition deleteRecording :: "string \<Rightarrow> studio \<Rightarrow> studio" where
  "deleteRecording ident s =
     (let prev = recordings s;
          target = find (\<lambda>item. rec_id item = ident) prev;
          s1 = (case target of
                  Some t \<Rightarrow> s\<lparr>revoked := revoked s @ [url t]\<rparr>
                | None \<Rightarrow> s)
      in s1\<lparr>recordings := filter (\<lambda>item. rec_id item \<noteq> ident) prev\<rparr>)"

subsection \<open>Sessions\<close>

text \<open>
  What can happen to the mounted component: the user's actions and the browser's events.
  An update of \<open>recordings\<close> is followed by its commit. Events that only set a cell
  which no handler below writes (the voice list and selection, pitch, rate, the active
  profile) are left out, and so is \<open>downloadRecording\<close>, which changes no state.
\<close>

datatype event =
    Speak
  | CancelSpeech
  | UtteranceStart nat
  | UtteranceEnd nat
  | UtteranceError nat
  | SetScript jsstring
  | ToggleRecording "media_error + unit" int
  | DataAvailable nat
  | RecorderStop int int int
  | DeleteRecording string
  | Unmount

fun step :: "event \<Rightarrow> studio \<Rightarrow> studio" where
  "step Speak s = speak s"
| "step CancelSpeech s = cancelSpeech s"
| "step (UtteranceStart u) s = onstart s"
| "step (UtteranceEnd u) s = onend (synth_finish u s)"
| "step (UtteranceError u) s = onerror (synth_finish u s)"
| "step (SetScript txt) s = s\<lparr>script := txt\<rparr>"
| "step (ToggleRecording getUserMedia now) s = toggleRecording getUserMedia now s"
| "step (DataAvailable sz) s = ondataavailable sz s"
| "step (RecorderStop now1 now2 now3) s = rerender (onstop now1 now2 now3 s)"
| "step (DeleteRecording ident) s = rerender (deleteRecording ident s)"
| "step Unmount s = unmount s"

definition run :: "event list \<Rightarrow> studio \<Rightarrow> studio" where
  "run evs s = foldl (\<lambda>s e. step e s) s evs"

text \<open>The events that clear the speaking flag.\<close>

fun silences :: "event \<Rightarrow> bool" where
  "silences CancelSpeech = True"
| "silences (UtteranceEnd u) = True"
| "silences (UtteranceError u) = True"
| "silences e = False"

text \<open>The clock readings that became identifiers of takes during a session.\<close>

fun id_readings :: "event list \<Rightarrow> int list" where
  "id_readings [] = []"
| "id_readings (RecorderStop now1 now2 now3 # evs) = now2 # id_readings evs"
| "id_readings (e # evs) = id_readings evs"

text \<open>
  The events that start or stop a capture or deliver a recorder's stop event: the ones
  that write \<open>recordStartRef\<close> or the recording flag.
\<close>

fun capture_event :: "event \<Rightarrow> bool" where
  "capture_event (ToggleRecording getUserMedia now) = True"
| "capture_event (RecorderStop now1 now2 now3) = True"
| "capture_event e = False"

text \<open>The recorder behind \<open>recorderRef\<close> is absent or at rest.\<close>

definition recorder_idle :: "studio \<Rightarrow> bool" where
  "recorder_idle s =
     (case recorderRef s of
        None \<Rightarrow> True
      | Some r \<Rightarrow> rec_state r = Inactive \<and> \<not> tracks_live r)"

section \<open>Properties of the derived metrics\<close>

subsection \<open>Digits\<close>

lemma digit_char_literals:
  "digit_char 0 = CHR ''0''" "digit_char (Suc 0) = CHR ''1''" "digit_char 1 = CHR ''1''"
  "digit_char 2 = CHR ''2''" "digit_char 3 = CHR ''3''" "digit_char 4 = CHR ''4''"
  "digit_char 5 = CHR ''5''" "digit_char 6 = CHR ''6''" "digit_char 7 = CHR ''7''"
  "digit_char 8 = CHR ''8''" "digit_char 9 = CHR ''9''"
  by (simp_all add: digit_char_def char_of_def bit_0)

lemma digit_val_digit_char: "d < 10 \<Longrightarrow> digit_val (digit_char d) = d"
  by (simp add: digit_val_def digit_char_def)

lemma is_digit_digit_char: "d < 10 \<Longrightarrow> is_digit (digit_char d)"
  by (simp add: is_digit_def digit_char_def)

lemma digit_char_not_colon: "d < 10 \<Longrightarrow> digit_char d \<noteq> CHR '':''"
  using is_digit_digit_char [of d] by (auto simp: is_digit_def)

lemma digits_small: "n < 10 \<Longrightarrow> digits n = [digit_char n]"
  by (simp add: digits.simps [of n])

lemma digits_large:
  "\<not> n < 10 \<Longrightarrow> digits n = digits (n div 10) @ [digit_char (n mod 10)]"
  by (simp add: digits.simps [of n])

lemma decimal_value_snoc:
  "decimal_value (s @ [c]) = 10 * decimal_value s + digit_val c"
  by (simp add: decimal_value_def)

lemma decimal_value_digits: "decimal_value (digits n) = n"
proof (induction n rule: digits.induct)
  case (1 n)
  show ?case
  proof (cases "n < 10")
    case True
    then show ?thesis
      by (simp add: digits_small decimal_value_def digit_val_digit_char)
  next
    case False
    with 1 show ?thesis
      by (simp add: digits_large decimal_value_snoc digit_val_digit_char)
  qed
qed

lemma digits_all_digit: "list_all is_digit (digits n)"
proof (induction n rule: digits.induct)
  case (1 n)
  show ?case
  proof (cases "n < 10")
    case True
    then show ?thesis by (simp add: digits_small is_digit_digit_char)
  next
    case False
    with 1 show ?thesis by (simp add: digits_large is_digit_digit_char)
  qed
qed

lemma digits_not_empty: "digits n \<noteq> []"
  by (cases "n < 10") (simp_all add: digits_small digits_large)

lemma digits_two: "n < 100 \<Longrightarrow> \<not> n < 10 \<Longrightarrow> digits n = [digit_char (n div 10), digit_char (n mod 10)]"
  by (simp add: digits_large digits_small)

lemma digits_no_colon: "CHR '':'' \<notin> set (digits n)"
  using digits_all_digit [of n] by (auto simp: list_all_iff is_digit_def)

subsection \<open>formattedDuration\<close>

lemma Math_round_ms: "Math_round (of_int ms / 1000) = (ms + 500) div 1000"
  unfolding Math_round_def by linarith

lemma Math_floor_div: "Math_floor (of_int t / 60) = t div 60"
  unfolding Math_floor_def by linarith

lemma toString_nat: "0 \<le> n \<Longrightarrow> toString n = digits (nat n)"
  by (simp add: toString_def)

lemma padStart_seconds:
  "s < 60 \<Longrightarrow> padStart 2 CHR ''0'' (digits s) = [digit_char (s div 10), digit_char (s mod 10)]"
proof (cases "s < 10")
  case True
  then show ?thesis
    by (simp add: padStart_def digits_small digit_char_literals)
next
  case False
  assume "s < 60"
  with False show ?thesis
    by (simp add: padStart_def digits_two)
qed

lemma formattedDuration_fields:
  "formattedDuration ms =
     digits (nat (max 0 ((ms + 500) div 1000)) div 60) @ CHR '':'' #
       [digit_char (nat (max 0 ((ms + 500) div 1000)) mod 60 div 10),
        digit_char (nat (max 0 ((ms + 500) div 1000)) mod 60 mod 10)]"
proof -
  define t where "t = max 0 ((ms + 500) div 1000)"
  have t0: "0 \<le> t" by (simp add: t_def)
  have m: "toString (t div 60) = digits (nat t div 60)"
    using t0 by (simp add: toString_nat pos_imp_zdiv_nonneg_iff nat_div_distrib)
  have s: "toString (t mod 60) = digits (nat t mod 60)"
    using t0 by (simp add: toString_nat nat_mod_distrib)
  have "formattedDuration ms = toString (t div 60) @ '':'' @ padStart 2 CHR ''0'' (toString (t mod 60))"
    by (simp add: formattedDuration_def Let_def Math_round_ms Math_floor_div t_def)
  also have "\<dots> = digits (nat t div 60) @ CHR '':'' #
       [digit_char (nat t mod 60 div 10), digit_char (nat t mod 60 mod 10)]"
    by (simp add: m s padStart_seconds)
  finally show ?thesis by (simp add: t_def)
qed

lemma minutes_field_split:
  "CHR '':'' \<notin> set m \<Longrightarrow> minutes_field (m @ CHR '':'' # r) = m"
  by (induction m) (auto simp: minutes_field_def)

lemma seconds_field_split:
  "CHR '':'' \<notin> set m \<Longrightarrow> seconds_field (m @ CHR '':'' # r) = r"
  by (induction m) (auto simp: seconds_field_def)

lemma decimal_value_two:
  "decimal_value [a, b] = 10 * digit_val a + digit_val b"
  by (simp add: decimal_value_def)

text \<open>
  Claim C7. For every duration \<open>d \<ge> 0\<close> in milliseconds, \<open>formattedDuration d\<close> has the
  form \<open>M:SS\<close>: a non-empty digit string, a colon, and exactly two digits. The two
  digits denote \<open>round (d / 1000) mod 60\<close> and \<open>M\<close> denotes
  \<open>floor (round (d / 1000) / 60)\<close>. In particular \<open>formattedDuration 125000\<close> is
  \<open>2:05\<close>.
\<close>

theorem formattedDuration_format:
  assumes "0 \<le> d"
  shows "formattedDuration d =
           minutes_field (formattedDuration d) @ '':'' @ seconds_field (formattedDuration d)
       \<and> minutes_field (formattedDuration d) \<noteq> []
       \<and> list_all is_digit (minutes_field (formattedDuration d))
       \<and> length (seconds_field (formattedDuration d)) = 2
       \<and> list_all is_digit (seconds_field (formattedDuration d))
       \<and> int (decimal_value (seconds_field (formattedDuration d)))
           = round (of_int d / 1000 :: rat) mod 60
       \<and> int (decimal_value (minutes_field (formattedDuration d)))
           = floor (of_int (round (of_int d / 1000 :: rat)) / 60 :: rat)
       \<and> formattedDuration 125000 = ''2:05''"
proof -
  define t where "t = nat (max 0 ((d + 500) div 1000))"
  define M where "M = digits (t div 60)"
  define S where "S = [digit_char (t mod 60 div 10), digit_char (t mod 60 mod 10)]"
  have r: "round (of_int d / 1000 :: rat) = (d + 500) div 1000"
    unfolding round_def by linarith
  have rpos: "0 \<le> (d + 500) div 1000"
    using assms by (simp add: pos_imp_zdiv_nonneg_iff)
  have tint: "int t = (d + 500) div 1000"
    using rpos by (simp add: t_def)
  have fd: "formattedDuration d = M @ CHR '':'' # S"
    by (simp add: formattedDuration_fields M_def S_def t_def)
  have nc: "CHR '':'' \<notin> set M"
    by (simp add: M_def digits_no_colon)
  have mf: "minutes_field (formattedDuration d) = M"
    by (simp add: fd minutes_field_split [OF nc])
  have sf: "seconds_field (formattedDuration d) = S"
    by (simp add: fd seconds_field_split [OF nc])
  have c1: "formattedDuration d = M @ '':'' @ S" by (simp add: fd)
  have c2: "M \<noteq> []" by (simp add: M_def digits_not_empty)
  have c3: "list_all is_digit M" by (simp add: M_def digits_all_digit)
  have c4: "length S = 2" by (simp add: S_def)
  have c5: "list_all is_digit S" by (simp add: S_def is_digit_digit_char)
  have "decimal_value S = t mod 60"
    by (simp add: S_def decimal_value_two digit_val_digit_char)
  then have c6: "int (decimal_value S) = round (of_int d / 1000 :: rat) mod 60"
    by (simp add: r tint [symmetric] zmod_int)
  have "decimal_value M = t div 60"
    by (simp add: M_def decimal_value_digits)
  moreover have "floor (of_int (round (of_int d / 1000 :: rat)) / 60 :: rat) = (d + 500) div 1000 div 60"
    unfolding r by linarith
  ultimately have c7: "int (decimal_value M) = floor (of_int (round (of_int d / 1000 :: rat)) / 60 :: rat)"
    by (simp add: tint [symmetric] zdiv_int)
  have c8: "formattedDuration 125000 = ''2:05''"
    by (simp add: formattedDuration_fields digits_small digit_char_literals)
  show ?thesis
    unfolding mf sf using c1 c2 c3 c4 c5 c6 c7 c8 by blast
qed

theorem formattedDuration_format_witness:
  "(0::int) \<le> 125000
   \<and> formattedDuration 125000 = ''2:05''
   \<and> minutes_field (formattedDuration 125000) = ''2''
   \<and> seconds_field (formattedDuration 125000) = ''05''
   \<and> decimal_value (seconds_field (formattedDuration 125000)) = 5
   \<and> decimal_value (minutes_field (formattedDuration 125000)) = 2"
  using formattedDuration_format [of 125000]
  by (simp add: minutes_field_def seconds_field_def decimal_value_def digit_val_def)

text \<open>
  Claim C10. For every negative duration \<open>d < 0\<close> the formatter returns \<open>0:00\<close>: the
  rounded seconds are clamped at zero by \<open>Math.max\<close>.
\<close>

theorem formattedDuration_negative:
  assumes "d < 0"
  shows "formattedDuration d = ''0:00''"
proof -
  have "(d + 500) div 1000 \<le> 0"
    using assms by linarith
  then have "max 0 ((d + 500) div 1000) = 0" by simp
  then show ?thesis
    by (simp add: formattedDuration_fields digits_small digit_char_literals)
qed

theorem formattedDuration_negative_witness:
  "(-1::int) < 0 \<and> formattedDuration (-1) = ''0:00'' \<and> formattedDuration (-125000) = ''0:00''"
  using formattedDuration_negative [of "-1"] formattedDuration_negative [of "-125000"]
  by simp

subsection \<open>wordCount\<close>

lemma split_ws_not_empty: "split_ws tok s \<noteq> []"
  by (induction tok s rule: split_ws.induct) auto

lemma dropWhile_ws_empty_iff: "dropWhile isWhiteSpace s = [] \<longleftrightarrow> list_all isWhiteSpace s"
  by (simp add: list_all_iff)

lemma trim_empty_iff: "trim s = [] \<longleftrightarrow> list_all isWhiteSpace s"
proof (cases "dropWhile isWhiteSpace s")
  case Nil
  have "trim s = []"
    unfolding trim_def Nil by simp
  moreover have "list_all isWhiteSpace s"
    using Nil by (simp add: list_all_iff)
  ultimately show ?thesis by simp
next
  case (Cons d ds)
  then have d: "\<not> isWhiteSpace d"
    using hd_dropWhile [of isWhiteSpace s] by simp
  have "d \<in> set (rev (dropWhile isWhiteSpace s))"
    by (simp add: Cons)
  with d have "dropWhile isWhiteSpace (rev (dropWhile isWhiteSpace s)) \<noteq> []"
    by auto
  moreover have "\<not> list_all isWhiteSpace s"
    using Cons dropWhile_ws_empty_iff [of s] by simp
  ultimately show ?thesis by (simp add: trim_def)
qed

lemma trim_hd: "trim s \<noteq> [] \<Longrightarrow> \<not> isWhiteSpace (hd (trim s))"
proof -
  assume ne: "trim s \<noteq> []"
  define u where "u = dropWhile isWhiteSpace s"
  define v where "v = dropWhile isWhiteSpace (rev u)"
  have t: "trim s = rev v" by (simp add: trim_def u_def v_def)
  with ne have vne: "v \<noteq> []" by simp
  then have une: "u \<noteq> []" by (auto simp: v_def)
  have hdu: "\<not> isWhiteSpace (hd u)"
    using une hd_dropWhile [of isWhiteSpace s] by (simp add: u_def)
  obtain w where w: "rev u = w @ v"
    by (metis takeWhile_dropWhile_id v_def)
  then have "u = rev v @ rev w" by (metis rev_append rev_rev_ident)
  with vne have "hd u = hd (rev v)" by simp
  with hdu show ?thesis by (simp add: t)
qed

lemma trim_last: "trim s \<noteq> [] \<Longrightarrow> \<not> isWhiteSpace (last (trim s))"
proof -
  assume ne: "trim s \<noteq> []"
  define v where "v = dropWhile isWhiteSpace (rev (dropWhile isWhiteSpace s))"
  have t: "trim s = rev v" by (simp add: trim_def v_def)
  with ne have vne: "v \<noteq> []" by simp
  then have "\<not> isWhiteSpace (hd v)"
    unfolding v_def by (rule hd_dropWhile)
  then show ?thesis using vne by (simp add: t last_rev)
qed

lemma tokens_skip: "tokens (dropWhile isWhiteSpace s) = tokens s"
  by (induction s) auto

lemma tokens_start:
  "s \<noteq> [] \<Longrightarrow> \<not> isWhiteSpace (hd s) \<Longrightarrow>
   tokens s = takeWhile (\<lambda>x. \<not> isWhiteSpace x) s # tokens (dropWhile (\<lambda>x. \<not> isWhiteSpace x) s)"
  by (cases s) auto

lemma split_ws_tokens:
  "s = [] \<or> \<not> isWhiteSpace (last s) \<Longrightarrow>
   split_ws tok s = (tok @ takeWhile (\<lambda>x. \<not> isWhiteSpace x) s)
                      # tokens (dropWhile (\<lambda>x. \<not> isWhiteSpace x) s)"
proof (induction tok s rule: split_ws.induct)
  case (1 tok)
  show ?case by simp
next
  case (2 tok c cs)
  show ?case
  proof (cases "isWhiteSpace c")
    case True
    define r where "r = dropWhile isWhiteSpace cs"
    from 2(3) True have cs: "cs \<noteq> []" "\<not> isWhiteSpace (last cs)"
      by (auto split: if_splits)
    then have "last cs \<in> set cs" by simp
    with cs have rne: "r \<noteq> []"
      by (auto simp: r_def)
    have hdr: "\<not> isWhiteSpace (hd r)"
      using rne unfolding r_def by (rule hd_dropWhile)
    have "last r = last cs"
      using rne by (metis r_def takeWhile_dropWhile_id last_appendR)
    with cs rne have "r = [] \<or> \<not> isWhiteSpace (last r)" by simp
    with 2(1) True have "split_ws [] r = takeWhile (\<lambda>x. \<not> isWhiteSpace x) r
        # tokens (dropWhile (\<lambda>x. \<not> isWhiteSpace x) r)"
      by (simp add: r_def)
    also have "\<dots> = tokens r" using rne hdr by (simp add: tokens_start)
    also have "\<dots> = tokens cs" by (simp add: r_def tokens_skip)
    finally show ?thesis using True by (simp add: r_def)
  next
    case False
    from 2(3) have "cs = [] \<or> \<not> isWhiteSpace (last cs)"
      by (auto split: if_splits)
    with 2(2) False show ?thesis by simp
  qed
qed

lemma split_whitespace_trim:
  "trim s \<noteq> [] \<Longrightarrow> split_whitespace (trim s) = tokens (trim s)"
  using split_ws_tokens [of "trim s" "[]"] trim_last [of s] trim_hd [of s]
  by (simp add: split_whitespace_def tokens_start)

lemma tokens_sound: "list_all (\<lambda>t. t \<noteq> [] \<and> list_all (\<lambda>x. \<not> isWhiteSpace x) t) (tokens s)"
proof (induction s rule: tokens.induct)
  case 1
  show ?case by simp
next
  case (2 c cs)
  have "list_all (\<lambda>x. \<not> isWhiteSpace x) (takeWhile (\<lambda>x. \<not> isWhiteSpace x) cs)"
    by (auto simp: list_all_iff dest: set_takeWhileD)
  with 2 show ?case by simp
qed


text \<open>
  Claim C8. For every script \<open>S\<close>, \<open>wordCount S\<close> is 0 exactly when \<open>S\<close> is empty or
  consists of white space only; and \<open>wordCount S\<close> is the number of white-space-delimited
  tokens of \<open>S\<close> after trimming (which is 0 in the first case, so the equation holds for
  every script).
\<close>

theorem wordCount_tokens:
  "(wordCount S = 0 \<longleftrightarrow> S = [] \<or> list_all isWhiteSpace S)
   \<and> wordCount S = length (tokens (trim S))"
proof -
  have a: "wordCount S = length (tokens (trim S))"
    by (cases "trim S = []") (simp_all add: wordCount_def split_whitespace_trim)
  have "wordCount S = 0 \<longleftrightarrow> trim S = []"
    by (simp add: wordCount_def split_whitespace_def split_ws_not_empty)
  then have b: "wordCount S = 0 \<longleftrightarrow> S = [] \<or> list_all isWhiteSpace S"
    by (auto simp: trim_empty_iff)
  from a b show ?thesis by blast
qed

theorem wordCount_tokens_witness:
  "wordCount (utf16 ''Hello world'') = 2
   \<and> tokens (trim (utf16 ''  Hello   world '')) = [utf16 ''Hello'', utf16 ''world'']
   \<and> wordCount (utf16 ''  Hello   world '') = 2
   \<and> wordCount (utf16 ''   '') = 0 \<and> wordCount [] = 0"
proof -
  have ws: "isWhiteSpace 0x20" "\<not> isWhiteSpace 0x48" "\<not> isWhiteSpace 0x65"
    "\<not> isWhiteSpace 0x6C" "\<not> isWhiteSpace 0x6F" "\<not> isWhiteSpace 0x77"
    "\<not> isWhiteSpace 0x72" "\<not> isWhiteSpace 0x64"
    by (simp_all add: isWhiteSpace_def)
  have t1: "trim (utf16 ''Hello world'') = utf16 ''Hello world''"
    by (simp add: trim_def utf16_def ws)
  have t2: "trim (utf16 ''  Hello   world '') = utf16 ''Hello   world''"
    by (simp add: trim_def utf16_def ws)
  have k1: "tokens (utf16 ''Hello world'') = [utf16 ''Hello'', utf16 ''world'']"
    by (simp add: utf16_def ws)
  have k2: "tokens (utf16 ''Hello   world'') = [utf16 ''Hello'', utf16 ''world'']"
    by (simp add: utf16_def ws)
  have e: "list_all isWhiteSpace (utf16 ''   '')"
    by (simp add: utf16_def ws)
  show ?thesis
    using wordCount_tokens [of "utf16 ''Hello world''"]
      wordCount_tokens [of "utf16 ''  Hello   world ''"]
      wordCount_tokens [of "utf16 ''   ''"] wordCount_tokens [of "[]"] e
    by (simp add: t1 t2 k1 k2)
qed

subsection \<open>The estimated seconds\<close>

























section \<open>Properties of the controllers\<close>

lemmas handler_defs =
  speak_def cancelSpeech_def onstart_def onend_def onerror_def synth_finish_def
  synth_cancel_def effect_cleanup_def rerender_def unmount_def
  requestRecordingStream_def ondataavailable_def onstop_def stopRecording_def
  toggleRecording_def deleteRecording_def

lemma run_Nil: "run [] s = s"
  by (simp add: run_def)

lemma run_Cons: "run (e # evs) s = run evs (step e s)"
  by (simp add: run_def)

lemma run_append: "run (xs @ ys) s = run ys (run xs s)"
  by (simp add: run_def)

lemma run_snoc: "run (evs @ [e]) s = step e (run evs s)"
  by (simp add: run_def)

subsection \<open>Microphone failure\<close>

text \<open>
  Claim C6. When \<open>toggleRecording\<close> takes its start branch (the recording flag is false)
  and \<open>getUserMedia\<close> rejects, \<open>requestRecordingStream\<close> ends with that rejection at its
  first statement, the rejection is caught and written to the console, and nothing else
  changes: the flag stays false, no take is created, the refs keep their values. Without
  the capability the microphone is not even asked and the state is unchanged.
\<close>

theorem toggleRecording_mic_failure:
  "\<not> isRecording s \<longrightarrow>
     requestRecordingStream (Inl e) now s = Inl e
   \<and> toggleRecording (Inl e) now s =
       (if recordingSupported s
        then s\<lparr>console := console s @ [(''Unable to access microphone'', e)]\<rparr> else s)
   \<and> isRecording (toggleRecording (Inl e) now s) = False
   \<and> recordings (toggleRecording (Inl e) now s) = recordings s
   \<and> recorderRef (toggleRecording (Inl e) now s) = recorderRef s
   \<and> recordStartRef (toggleRecording (Inl e) now s) = recordStartRef s
   \<and> audioChunksRef (toggleRecording (Inl e) now s) = audioChunksRef s"
  by (simp add: toggleRecording_def requestRecordingStream_def)

theorem toggleRecording_mic_failure_witness:
  "\<not> isRecording (initial True True)
   \<and> toggleRecording (Inl NotAllowedError) 1000 (initial True True) =
       (initial True True)\<lparr>console := [(''Unable to access microphone'', NotAllowedError)]\<rparr>
   \<and> isRecording (toggleRecording (Inl NotAllowedError) 1000 (initial True True)) = False
   \<and> recordings (toggleRecording (Inl NotAllowedError) 1000 (initial True True)) = []"
  using toggleRecording_mic_failure [of "initial True True" NotAllowedError 1000]
  by (simp add: initial_def)

subsection \<open>Stopping when not recording\<close>

lemma stopRecording_idle:
  "\<not> isRecording s \<Longrightarrow> recorder_idle s \<Longrightarrow> stopRecording s = s"
  by (cases "recorderRef s") (auto simp: stopRecording_def recorder_idle_def)

lemma recorder_idle_initial: "recorder_idle (initial a b)"
  by (simp add: recorder_idle_def initial_def)

lemma recorder_idle_step:
  assumes "\<not> isRecording s \<longrightarrow> recorder_idle s"
  shows "\<not> isRecording (step e s) \<longrightarrow> recorder_idle (step e s)"
proof (cases e)
  case (ToggleRecording g now)
  then show ?thesis
    using assms
    by (cases "recorderRef s")
       (auto simp: handler_defs recorder_idle_def split: sum.splits)
qed (use assms in \<open>auto simp: handler_defs recorder_idle_def Let_def split: option.splits\<close>)

lemma recorder_idle_run:
  "\<not> isRecording (run evs (initial a b)) \<longrightarrow> recorder_idle (run evs (initial a b))"
proof (induction evs rule: rev_induct)
  case Nil
  show ?case by (simp add: run_Nil recorder_idle_initial)
next
  case (snoc e evs)
  then show ?case
    unfolding run_snoc by (rule recorder_idle_step)
qed

text \<open>
  Claim C9. In every state in which the recording flag is false and the recorder is
  absent or at rest, the stop statements of \<open>toggleRecording\<close> change nothing: not the
  list of takes, not the flag, not any other cell. Every state of a session with the
  flag false is such a state.
\<close>

theorem stopRecording_not_recording:
  "(\<not> isRecording s \<and> recorder_idle s \<longrightarrow> stopRecording s = s)
   \<and> (\<not> isRecording (run evs (initial a b)) \<longrightarrow>
        stopRecording (run evs (initial a b)) = run evs (initial a b))"
  using stopRecording_idle [of s] stopRecording_idle [of "run evs (initial a b)"]
    recorder_idle_run [of evs a b]
  by blast

theorem stopRecording_not_recording_witness:
  "\<not> isRecording (run [ToggleRecording (Inr ()) 1000, ToggleRecording (Inr ()) 5000]
        (initial True True))
   \<and> recorderRef (run [ToggleRecording (Inr ()) 1000, ToggleRecording (Inr ()) 5000]
        (initial True True)) = Some \<lparr> rec_state = Inactive, tracks_live = False \<rparr>
   \<and> stopRecording (run [ToggleRecording (Inr ()) 1000, ToggleRecording (Inr ()) 5000]
        (initial True True))
       = run [ToggleRecording (Inr ()) 1000, ToggleRecording (Inr ()) 5000] (initial True True)
   \<and> stopRecording (initial True True) = initial True True"
  using stopRecording_not_recording
      [of "initial True True" "[ToggleRecording (Inr ()) 1000, ToggleRecording (Inr ()) 5000]"
          True True]
  by (simp add: run_def handler_defs initial_def recorder_idle_def)

subsection \<open>Speech preview\<close>

lemma synthQueue_step:
  "length (synthQueue s) \<le> 1 \<Longrightarrow> length (synthQueue (step e s)) \<le> 1"
proof (cases e)
  case (UtteranceEnd u)
  assume q: "length (synthQueue s) \<le> 1"
  have "length (filter (\<lambda>x. uid x \<noteq> u) (synthQueue s)) \<le> length (synthQueue s)"
    by (rule length_filter_le)
  with q have "length (filter (\<lambda>x. uid x \<noteq> u) (synthQueue s)) \<le> 1"
    by (rule le_trans [rotated])
  then show ?thesis
    using UtteranceEnd by (simp add: handler_defs)
next
  case (UtteranceError u)
  assume q: "length (synthQueue s) \<le> 1"
  have "length (filter (\<lambda>x. uid x \<noteq> u) (synthQueue s)) \<le> length (synthQueue s)"
    by (rule length_filter_le)
  with q have "length (filter (\<lambda>x. uid x \<noteq> u) (synthQueue s)) \<le> 1"
    by (rule le_trans [rotated])
  then show ?thesis
    using UtteranceError by (simp add: handler_defs)
qed (auto simp: handler_defs Let_def split: sum.splits option.splits)

lemma synthQueue_run: "length (synthQueue (run evs (initial a b))) \<le> 1"
proof (induction evs rule: rev_induct)
  case Nil
  show ?case by (simp add: run_Nil initial_def)
next
  case (snoc e evs)
  then show ?case
    unfolding run_snoc by (rule synthQueue_step)
qed

lemma speak_queue:
  "speechSupported s \<Longrightarrow> trim (script s) \<noteq> [] \<Longrightarrow>
   synthQueue (speak s) =
     [\<lparr> uid = utterancesMade s, utt_text = script s, utt_pitch = pitch s, utt_rate = rate s,
        utt_voice = find (\<lambda>v. voice_name v = selectedVoice s) (voices s) \<rparr>]"
  by (simp add: speak_def synth_cancel_def Let_def)

lemma speak_guard:
  "\<not> speechSupported s \<or> trim (script s) = [] \<Longrightarrow> speak s = s"
  by (auto simp: speak_def)

lemma speak_keeps:
  "speechSupported (speak s) = speechSupported s" "script (speak s) = script s"
  "isSpeaking (speak s) = isSpeaking s"
  by (simp_all add: speak_def synth_cancel_def Let_def)

lemma isSpeaking_step:
  "isSpeaking (step e s) =
     (case e of UtteranceStart u \<Rightarrow> True
      | _ \<Rightarrow> if silences e then False else isSpeaking s)"
  by (cases e) (auto simp: handler_defs Let_def split: sum.splits option.splits)

lemma isSpeaking_run:
  "isSpeaking (run evs (initial a b)) \<Longrightarrow>
   \<exists>pre u post. evs = pre @ UtteranceStart u # post \<and> list_all (\<lambda>e. \<not> silences e) post"
proof (induction evs rule: rev_induct)
  case Nil
  then show ?case by (simp add: run_Nil initial_def)
next
  case (snoc e evs)
  show ?case
  proof (cases "\<exists>u. e = UtteranceStart u")
    case True
    then obtain u where "e = UtteranceStart u" ..
    then have "evs @ [e] = evs @ UtteranceStart u # [] \<and> list_all (\<lambda>e. \<not> silences e) []"
      by simp
    then show ?thesis by blast
  next
    case False
    then have s: "isSpeaking (step e (run evs (initial a b)))
        = (if silences e then False else isSpeaking (run evs (initial a b)))"
      by (simp add: isSpeaking_step split: event.splits)
    from snoc.prems have "isSpeaking (step e (run evs (initial a b)))"
      by (simp add: run_snoc)
    with s have ns: "\<not> silences e" and "isSpeaking (run evs (initial a b))"
      by (auto split: if_splits)
    with snoc.IH obtain pre u post
      where "evs = pre @ UtteranceStart u # post" "list_all (\<lambda>e. \<not> silences e) post"
      by blast
    with ns have "evs @ [e] = pre @ UtteranceStart u # (post @ [e])
        \<and> list_all (\<lambda>e. \<not> silences e) (post @ [e])"
      by simp
    then show ?thesis by blast
  qed
qed

text \<open>
  Claim C5. At most one utterance is in the speech queue at any point of any session.
  A call of \<open>speak\<close> that passes its guard cancels whatever is queued and leaves exactly
  the new utterance; so do two calls in succession. And the speaking flag is true only
  if some utterance's start event has arrived and no end event, error event or
  \<open>cancelSpeech\<close> has come after it.
\<close>

theorem speak_one_utterance:
  "length (synthQueue (run evs (initial a b))) \<le> 1
   \<and> (speechSupported s \<and> trim (script s) \<noteq> [] \<longrightarrow>
        synthQueue (speak s) =
          [\<lparr> uid = utterancesMade s, utt_text = script s, utt_pitch = pitch s,
             utt_rate = rate s,
             utt_voice = find (\<lambda>v. voice_name v = selectedVoice s) (voices s) \<rparr>]
        \<and> length (synthQueue (speak (speak s))) = 1)
   \<and> (isSpeaking (run evs (initial a b)) \<longrightarrow>
        (\<exists>pre u post. evs = pre @ UtteranceStart u # post
           \<and> list_all (\<lambda>e. \<not> silences e) post))"
proof -
  have two: "length (synthQueue (speak (speak s))) = 1"
    if "speechSupported s" "trim (script s) \<noteq> []"
    using that speak_queue [of "speak s"] by (simp add: speak_keeps)
  show ?thesis
    using synthQueue_run [of evs a b] speak_queue [of s] two isSpeaking_run [of evs a b]
    by blast
qed

lemma trim_defaultScript: "trim defaultScript \<noteq> []"
proof -
  have "\<not> isWhiteSpace 0x48"
    by (simp add: isWhiteSpace_def)
  then have "\<not> list_all isWhiteSpace defaultScript"
    by (simp add: defaultScript_def utf16_def)
  then show ?thesis by (simp add: trim_empty_iff)
qed

theorem speak_one_utterance_witness:
  "speechSupported (initial True True) \<and> trim (script (initial True True)) \<noteq> []
   \<and> length (synthQueue (speak (speak (initial True True)))) = 1
   \<and> map uid (synthQueue (speak (speak (initial True True)))) = [1]
   \<and> isSpeaking (run [Speak, UtteranceStart 0] (initial True True))
   \<and> \<not> isSpeaking (run [Speak, UtteranceStart 0, UtteranceEnd 0] (initial True True))"
proof -
  have t: "trim (script (initial True True)) \<noteq> []"
    using trim_defaultScript by (simp add: initial_def)
  have q: "map uid (synthQueue (speak (speak (initial True True)))) = [1]"
    using t speak_queue [of "speak (initial True True)"]
    by (simp add: speak_keeps) (simp add: speak_def Let_def synth_cancel_def initial_def)
  have a: "isSpeaking (run [Speak, UtteranceStart 0] (initial True True))"
    by (simp add: run_def onstart_def)
  have b: "\<not> isSpeaking (run [Speak, UtteranceStart 0, UtteranceEnd 0] (initial True True))"
    by (simp add: run_def onend_def)
  show ?thesis
    using speak_one_utterance [of "[Speak, UtteranceStart 0]" True True "initial True True"]
      t q a b
    by (simp add: initial_def)
qed

subsection \<open>Deleting a take\<close>

text \<open>
  By itself the updater of \<open>deleteRecording\<close> leaves a list without the identifier as it
  is and releases nothing, and it takes the one take with the identifier out and
  releases its object URL once. The commit that follows every call is what the
  properties of deleting have to count as well; see the last subsection.
\<close>

lemma find_filter_single: "filter P xs = [t] \<Longrightarrow> find P xs = Some t"
  by (induction xs) (auto split: if_splits)

lemma find_filter_none: "filter P xs = [] \<Longrightarrow> find P xs = None"
  by (induction xs) (auto split: if_splits)

lemma filter_not_single: "filter P xs = [t] \<Longrightarrow> filter (\<lambda>x. \<not> P x) xs = remove1 t xs"
proof (induction xs)
  case Nil
  then show ?case by simp
next
  case (Cons x xs)
  show ?case
  proof (cases "P x")
    case True
    with Cons.prems have x: "x = t" and "filter P xs = []" by simp_all
    then have "filter (\<lambda>x. \<not> P x) xs = xs"
      by (simp add: filter_empty_conv)
    with True x show ?thesis by simp
  next
    case False
    with Cons.prems have f: "filter P xs = [t]" by simp
    then have "t \<in> set (filter P xs)" by simp
    then have "P t" by simp
    with False have "x \<noteq> t" by auto
    with False Cons.IH [OF f] show ?thesis by simp
  qed
qed

lemma deleteRecording_absent:
  assumes "\<not> (\<exists>r\<in>set (recordings s). rec_id r = i)"
  shows "deleteRecording i s = s"
proof -
  from assms have f: "filter (\<lambda>r. rec_id r = i) (recordings s) = []"
    by (simp add: filter_empty_conv)
  from assms have "filter (\<lambda>r. rec_id r \<noteq> i) (recordings s) = recordings s"
    by (simp add: filter_id_conv)
  with find_filter_none [OF f] show ?thesis
    by (simp add: deleteRecording_def)
qed

lemma deleteRecording_single:
  assumes "filter (\<lambda>r. rec_id r = i) (recordings s) = [t]"
  shows "deleteRecording i s =
           s\<lparr>recordings := remove1 t (recordings s), revoked := revoked s @ [url t]\<rparr>"
  using find_filter_single [OF assms] filter_not_single [OF assms]
  by (simp add: deleteRecording_def)

subsection \<open>A take from start to stop\<close>


lemma digits_hd_digit: "is_digit (hd (digits n))"
  using digits_all_digit [of n] digits_not_empty [of n]
  by (cases "digits n") simp_all

lemma digits_inj:
  assumes "digits m = digits n"
  shows "m = n"
proof -
  have "decimal_value (digits m) = decimal_value (digits n)"
    by (simp only: assms)
  then show ?thesis by (simp only: decimal_value_digits)
qed

lemma minus_not_digits: "CHR ''-'' # s \<noteq> digits n"
proof
  assume "CHR ''-'' # s = digits n"
  then have "hd (digits n) = CHR ''-''"
    by (cases "digits n") simp_all
  moreover have "\<not> is_digit CHR ''-''" by (simp add: is_digit_def)
  ultimately show False using digits_hd_digit [of n] by simp
qed

lemma toString_inj:
  assumes "toString a = toString b"
  shows "a = b"
proof (cases "a < 0")
  case True
  show ?thesis
  proof (cases "b < 0")
    case b: True
    from assms True b have "digits (nat (- a)) = digits (nat (- b))"
      by (simp add: toString_def)
    then have "nat (- a) = nat (- b)" by (rule digits_inj)
    with True b show ?thesis by simp
  next
    case b: False
    from assms True b have "CHR ''-'' # digits (nat (- a)) = digits (nat b)"
      by (simp add: toString_def)
    with minus_not_digits show ?thesis by blast
  qed
next
  case False
  show ?thesis
  proof (cases "b < 0")
    case b: True
    from assms False b have "CHR ''-'' # digits (nat (- b)) = digits (nat a)"
      by (simp add: toString_def)
    with minus_not_digits show ?thesis by blast
  next
    case b: False
    from assms False b have "digits (nat a) = digits (nat b)"
      by (simp add: toString_def)
    then have "nat a = nat b" by (rule digits_inj)
    with False b show ?thesis by simp
  qed
qed


lemma id_readings_snoc:
  "id_readings (evs @ [e]) =
     id_readings evs @ (case e of RecorderStop n1 n2 n3 \<Rightarrow> [n2] | _ \<Rightarrow> [])"
  by (induction evs rule: id_readings.induct) (simp_all split: event.splits)

lemma recordings_step:
  "rec_id ` set (recordings (step e s))
     \<subseteq> rec_id ` set (recordings s)
        \<union> toString ` set (case e of RecorderStop n1 n2 n3 \<Rightarrow> [n2] | _ \<Rightarrow> [])"
  by (cases e) (auto simp: handler_defs Let_def split: sum.splits option.splits)

lemma recordings_run:
  "rec_id ` set (recordings (run evs (initial a b))) \<subseteq> toString ` set (id_readings evs)"
proof (induction evs rule: rev_induct)
  case Nil
  show ?case by (simp add: run_Nil initial_def)
next
  case (snoc e evs)
  have "rec_id ` set (recordings (run (evs @ [e]) (initial a b)))
      \<subseteq> rec_id ` set (recordings (run evs (initial a b)))
         \<union> toString ` set (case e of RecorderStop n1 n2 n3 \<Rightarrow> [n2] | _ \<Rightarrow> [])"
    unfolding run_snoc by (rule recordings_step)
  also have "\<dots> \<subseteq> toString ` set (id_readings evs)
         \<union> toString ` set (case e of RecorderStop n1 n2 n3 \<Rightarrow> [n2] | _ \<Rightarrow> [])"
    using snoc.IH by blast
  also have "\<dots> = toString ` set (id_readings (evs @ [e]))"
    by (simp add: id_readings_snoc image_Un)
  finally show ?case .
qed

lemma fresh_reading_fresh_id:
  assumes "n2 \<notin> set (id_readings evs)"
  shows "toString n2 \<notin> rec_id ` set (recordings (run evs (initial a b)))"
proof
  assume "toString n2 \<in> rec_id ` set (recordings (run evs (initial a b)))"
  with recordings_run [of evs a b] have "toString n2 \<in> toString ` set (id_readings evs)"
    by blast
  then obtain m where "m \<in> set (id_readings evs)" "toString n2 = toString m" by blast
  with toString_inj [of n2 m] assms show False by simp
qed

lemma quiet_step:
  assumes "\<not> capture_event e"
  shows "recordStartRef (step e s) = recordStartRef s"
    and "isRecording (step e s) = isRecording s"
    and "recordingSupported (step e s) = recordingSupported s"
  using assms
  by (cases e; simp add: handler_defs Let_def split: option.splits)+

lemma quiet_run:
  assumes "list_all (\<lambda>e. \<not> capture_event e) evs"
  shows "recordStartRef (run evs s) = recordStartRef s"
    and "isRecording (run evs s) = isRecording s"
    and "recordingSupported (run evs s) = recordingSupported s"
  using assms
  by (induction evs arbitrary: s; simp add: run_Nil run_Cons quiet_step)+

lemma stop_event_recordings:
  assumes "recordStartRef s = Some t0" "t0 \<noteq> 0"
  shows "recordings (step (RecorderStop n1 n2 n3) s)
         = \<lparr> rec_id = toString n2, url = objectUrlsMade s, createdAt = n3,
               duration = n1 - t0 \<rparr> # recordings s"
    and "isRecording (step (RecorderStop n1 n2 n3) s) = isRecording s"
  using assms by (simp_all add: handler_defs Let_def)

lemma started_then_stopped:
  assumes "recordingSupported s" "\<not> isRecording s"
    and "list_all (\<lambda>e. \<not> capture_event e) mid1" "list_all (\<lambda>e. \<not> capture_event e) mid2"
  shows "recordStartRef (run ([ToggleRecording (Inr ()) t0] @ mid1
                              @ [ToggleRecording g t1] @ mid2) s) = Some t0"
    and "\<not> isRecording (run ([ToggleRecording (Inr ()) t0] @ mid1
                              @ [ToggleRecording g t1] @ mid2) s)"
proof -
  define s1 where "s1 = step (ToggleRecording (Inr ()) t0) s"
  define s2 where "s2 = run mid1 s1"
  define s3 where "s3 = step (ToggleRecording g t1) s2"
  define s4 where "s4 = run mid2 s3"
  have r: "run ([ToggleRecording (Inr ()) t0] @ mid1 @ [ToggleRecording g t1] @ mid2) s = s4"
    by (simp add: run_append run_Cons run_Nil s4_def s3_def s2_def s1_def)
  have 1: "recordStartRef s1 = Some t0" "isRecording s1" "recordingSupported s1"
    using assms(1,2) by (simp_all add: s1_def handler_defs)
  have 2: "recordStartRef s2 = Some t0" "isRecording s2" "recordingSupported s2"
    using 1 by (simp_all add: s2_def quiet_run [OF assms(3)])
  have 3: "recordStartRef s3 = Some t0" "\<not> isRecording s3"
    using 2 by (simp_all add: s3_def handler_defs)
  have 4: "recordStartRef s4 = Some t0" "\<not> isRecording s4"
    using 3 by (simp_all add: s4_def quiet_run [OF assms(4)])
  from 4 show "recordStartRef (run ([ToggleRecording (Inr ()) t0] @ mid1
      @ [ToggleRecording g t1] @ mid2) s) = Some t0"
    unfolding r by simp
  from 4 show "\<not> isRecording (run ([ToggleRecording (Inr ()) t0] @ mid1
      @ [ToggleRecording g t1] @ mid2) s)"
    unfolding r by simp
qed

lemma take_recorded:
  assumes "recordingSupported s" "\<not> isRecording s" "t0 \<noteq> 0"
    and "list_all (\<lambda>e. \<not> capture_event e) mid1" "list_all (\<lambda>e. \<not> capture_event e) mid2"
  shows "recordings (run ([ToggleRecording (Inr ()) t0] @ mid1 @ [ToggleRecording g t1] @ mid2
                          @ [RecorderStop n1 n2 n3]) s)
         = \<lparr> rec_id = toString n2,
               url = objectUrlsMade (run ([ToggleRecording (Inr ()) t0] @ mid1
                                          @ [ToggleRecording g t1] @ mid2) s),
               createdAt = n3, duration = n1 - t0 \<rparr>
           # recordings (run ([ToggleRecording (Inr ()) t0] @ mid1
                              @ [ToggleRecording g t1] @ mid2) s)"
    and "\<not> isRecording (run ([ToggleRecording (Inr ()) t0] @ mid1 @ [ToggleRecording g t1]
                              @ mid2 @ [RecorderStop n1 n2 n3]) s)"
proof -
  define s4 where
    "s4 = run ([ToggleRecording (Inr ()) t0] @ mid1 @ [ToggleRecording g t1] @ mid2) s"
  have r: "run ([ToggleRecording (Inr ()) t0] @ mid1 @ [ToggleRecording g t1] @ mid2
      @ [RecorderStop n1 n2 n3]) s = step (RecorderStop n1 n2 n3) s4"
    using run_snoc [of "[ToggleRecording (Inr ()) t0] @ mid1 @ [ToggleRecording g t1] @ mid2"
        "RecorderStop n1 n2 n3" s]
    by (simp add: s4_def)
  have 4: "recordStartRef s4 = Some t0" "\<not> isRecording s4"
    unfolding s4_def
    using started_then_stopped [OF assms(1,2,4,5), of t0 g t1] by blast+
  have "recordings (step (RecorderStop n1 n2 n3) s4)
      = \<lparr> rec_id = toString n2, url = objectUrlsMade s4, createdAt = n3,
            duration = n1 - t0 \<rparr> # recordings s4"
    using stop_event_recordings(1) [OF 4(1) assms(3)] .
  then show "recordings (run ([ToggleRecording (Inr ()) t0] @ mid1 @ [ToggleRecording g t1]
      @ mid2 @ [RecorderStop n1 n2 n3]) s)
    = \<lparr> rec_id = toString n2,
          url = objectUrlsMade (run ([ToggleRecording (Inr ()) t0] @ mid1
                                     @ [ToggleRecording g t1] @ mid2) s),
          createdAt = n3, duration = n1 - t0 \<rparr>
      # recordings (run ([ToggleRecording (Inr ()) t0] @ mid1
                         @ [ToggleRecording g t1] @ mid2) s)"
    unfolding r s4_def .
  have "\<not> isRecording (step (RecorderStop n1 n2 n3) s4)"
    using 4(2) stop_event_recordings(2) [OF 4(1) assms(3)] by simp
  then show "\<not> isRecording (run ([ToggleRecording (Inr ()) t0] @ mid1
      @ [ToggleRecording g t1] @ mid2 @ [RecorderStop n1 n2 n3]) s)"
    unfolding r .
qed

text \<open>
  Claim C2, as amended. Take a recording that is started with success, at a clock
  reading other than 0, and then stopped, with no other start or stop of a capture and
  no other stop event before its own stop event is delivered. That event adds exactly
  one take, at the front of the list as it is then, and the recording flag is false
  afterwards. The duration of the take is the clock reading at the stop event minus the
  reading at the start (and a stop event that finds no start timestamp gives the duration
  0). Its identifier is the decimal numeral of a clock reading at the stop event; it
  differs from the identifier of every take of the session so far whenever that reading
  differs from the readings that named the earlier takes.
\<close>

theorem stop_adds_one_take:
  "(recordingSupported s \<and> \<not> isRecording s \<and> t0 \<noteq> 0
      \<and> list_all (\<lambda>e. \<not> capture_event e) mid1 \<and> list_all (\<lambda>e. \<not> capture_event e) mid2 \<longrightarrow>
      recordings (run ([ToggleRecording (Inr ()) t0] @ mid1 @ [ToggleRecording g t1] @ mid2
                       @ [RecorderStop n1 n2 n3]) s)
        = \<lparr> rec_id = toString n2,
              url = objectUrlsMade (run ([ToggleRecording (Inr ()) t0] @ mid1
                                         @ [ToggleRecording g t1] @ mid2) s),
              createdAt = n3, duration = n1 - t0 \<rparr>
          # recordings (run ([ToggleRecording (Inr ()) t0] @ mid1
                             @ [ToggleRecording g t1] @ mid2) s)
      \<and> \<not> isRecording (run ([ToggleRecording (Inr ()) t0] @ mid1 @ [ToggleRecording g t1]
                              @ mid2 @ [RecorderStop n1 n2 n3]) s))
   \<and> (recordStartRef s = None \<longrightarrow>
        recordings (onstop n1 n2 n3 s)
          = \<lparr> rec_id = toString n2, url = objectUrlsMade s, createdAt = n3,
                duration = 0 \<rparr> # recordings s)
   \<and> (n2 \<notin> set (id_readings evs) \<longrightarrow>
        toString n2 \<notin> rec_id ` set (recordings (run evs (initial a b))))"
proof -
  have "recordStartRef s = None \<longrightarrow>
        recordings (onstop n1 n2 n3 s)
          = \<lparr> rec_id = toString n2, url = objectUrlsMade s, createdAt = n3,
                duration = 0 \<rparr> # recordings s"
    by (simp add: onstop_def Let_def)
  then show ?thesis
    using take_recorded [of s t0 mid1 mid2 g t1 n1 n2 n3]
      fresh_reading_fresh_id [of n2 evs a b]
    by blast
qed

lemma toString_literals:
  "toString 3000 = ''3000''" "toString 5000 = ''5000''" "toString 9000 = ''9000''"
  by (simp_all add: toString_def digits.simps digit_char_literals)

theorem stop_adds_one_take_witness:
  "recordingSupported (initial True True) \<and> \<not> isRecording (initial True True)
   \<and> (1000::int) \<noteq> 0
   \<and> list_all (\<lambda>e. \<not> capture_event e) [CancelSpeech]
   \<and> list_all (\<lambda>e. \<not> capture_event e) [DataAvailable 4096]
   \<and> recordings (run ([ToggleRecording (Inr ()) 1000] @ [CancelSpeech]
                       @ [ToggleRecording (Inr ()) 5000] @ [DataAvailable 4096]
                       @ [RecorderStop 5000 5000 5001]) (initial True True))
       = [\<lparr> rec_id = ''5000'', url = 0, createdAt = 5001, duration = 4000 \<rparr>]
   \<and> (5000::int) \<notin> set (id_readings [ToggleRecording (Inr ()) 1000,
         ToggleRecording (Inr ()) 3000, RecorderStop 3000 3000 3000])
   \<and> ''5000'' \<notin> rec_id ` set (recordings
         (run [ToggleRecording (Inr ()) 1000, ToggleRecording (Inr ()) 3000,
               RecorderStop 3000 3000 3000] (initial True True)))"
proof -
  have u: "objectUrlsMade (run [ToggleRecording (Inr ()) 1000, CancelSpeech,
      ToggleRecording (Inr ()) 5000, DataAvailable 4096] (initial True True)) = 0"
    "recordings (run [ToggleRecording (Inr ()) 1000, CancelSpeech,
      ToggleRecording (Inr ()) 5000, DataAvailable 4096] (initial True True)) = []"
    by (simp_all add: run_def handler_defs initial_def)
  show ?thesis
    using stop_adds_one_take
      [where s = "initial True True" and ?t0.0 = 1000 and ?mid1.0 = "[CancelSpeech]"
         and g = "Inr ()" and ?t1.0 = 5000 and ?mid2.0 = "[DataAvailable 4096]"
         and ?n1.0 = 5000 and ?n2.0 = 5000 and ?n3.0 = 5001
         and evs = "[ToggleRecording (Inr ()) 1000, ToggleRecording (Inr ()) 3000,
                     RecorderStop 3000 3000 3000]"
         and a = True and b = True]
    by (simp add: toString_literals u) (simp add: initial_def)
qed

text \<open>
  The claim as stated fails for the identifier. It is the clock reading at the stop, so
  two takes stopped at the same reading (here the wall clock was set back between them)
  carry the same identifier.
\<close>

theorem stop_adds_one_take_counterexample:
  "map rec_id (recordings (run [ToggleRecording (Inr ()) 1000, ToggleRecording (Inr ()) 5000,
        RecorderStop 5000 5000 5000,
        ToggleRecording (Inr ()) 3000, ToggleRecording (Inr ()) 5000,
        RecorderStop 5000 5000 5000] (initial True True)))
     = [''5000'', ''5000'']"
  by (simp add: run_def handler_defs initial_def Let_def toString_literals)

subsection \<open>Release of the object URLs\<close>

text \<open>
  Claim C1 asks that the object URL of every take is released exactly once, when the
  take is deleted or at the final teardown. The component does not do that: the cleanup
  of the effect runs after every change of the list, with the list as it was before the
  change. In the first session below one take is recorded and deleted: its URL (number
  0) is released by \<open>deleteRecording\<close> and again by the cleanup. In the second session
  two takes are recorded: the URL of the first is released when the second arrives,
  while the first is still in the list, and again at the teardown.
\<close>

theorem object_url_released_twice:
  "revoked (run [ToggleRecording (Inr ()) 1000, ToggleRecording (Inr ()) 5000,
        DataAvailable 4096, RecorderStop 5000 5000 5000,
        DeleteRecording ''5000'', Unmount] (initial True True))
     = [0, 0]
   \<and> map url (recordings (run [ToggleRecording (Inr ()) 1000, ToggleRecording (Inr ()) 5000,
        DataAvailable 4096, RecorderStop 5000 5000 5000,
        ToggleRecording (Inr ()) 6000, ToggleRecording (Inr ()) 9000,
        DataAvailable 4096, RecorderStop 9000 9000 9000] (initial True True)))
     = [1, 0]
   \<and> revoked (run [ToggleRecording (Inr ()) 1000, ToggleRecording (Inr ()) 5000,
        DataAvailable 4096, RecorderStop 5000 5000 5000,
        ToggleRecording (Inr ()) 6000, ToggleRecording (Inr ()) 9000,
        DataAvailable 4096, RecorderStop 9000 9000 9000] (initial True True))
     = [0]
   \<and> revoked (run [ToggleRecording (Inr ()) 1000, ToggleRecording (Inr ()) 5000,
        DataAvailable 4096, RecorderStop 5000 5000 5000,
        ToggleRecording (Inr ()) 6000, ToggleRecording (Inr ()) 9000,
        DataAvailable 4096, RecorderStop 9000 9000 9000, Unmount] (initial True True))
     = [0, 1, 0]"
  by (simp add: run_def handler_defs initial_def Let_def toString_literals)

text \<open>
  Claim C4 asks that deleting a take removes that take and releases its object URL
  exactly once, and that deleting an unknown identifier changes nothing and releases
  nothing. The list comes out as asked; the releases do not, for the reason found under
  C1: \<open>deleteRecording\<close> always installs a new array, so its commit runs the cleanup with
  the list as it was. In the session below one take is recorded (object URL 0, nothing
  released yet). Deleting it releases URL 0 twice, once by the updater and once by the
  cleanup. Deleting an identifier that no take has leaves the take in the list and
  releases its URL all the same.
\<close>

theorem delete_releases_with_cleanup:
  "recordings (run [ToggleRecording (Inr ()) 1000, ToggleRecording (Inr ()) 5000,
        DataAvailable 4096, RecorderStop 5000 5000 5000] (initial True True))
     = [\<lparr> rec_id = ''5000'', url = 0, createdAt = 5000, duration = 4000 \<rparr>]
   \<and> revoked (run [ToggleRecording (Inr ()) 1000, ToggleRecording (Inr ()) 5000,
        DataAvailable 4096, RecorderStop 5000 5000 5000] (initial True True))
     = []
   \<and> recordings (run [ToggleRecording (Inr ()) 1000, ToggleRecording (Inr ()) 5000,
        DataAvailable 4096, RecorderStop 5000 5000 5000,
        DeleteRecording ''5000''] (initial True True))
     = []
   \<and> revoked (run [ToggleRecording (Inr ()) 1000, ToggleRecording (Inr ()) 5000,
        DataAvailable 4096, RecorderStop 5000 5000 5000,
        DeleteRecording ''5000''] (initial True True))
     = [0, 0]
   \<and> recordings (run [ToggleRecording (Inr ()) 1000, ToggleRecording (Inr ()) 5000,
        DataAvailable 4096, RecorderStop 5000 5000 5000,
        DeleteRecording ''3000''] (initial True True))
     = [\<lparr> rec_id = ''5000'', url = 0, createdAt = 5000, duration = 4000 \<rparr>]
   \<and> revoked (run [ToggleRecording (Inr ()) 1000, ToggleRecording (Inr ()) 5000,
        DataAvailable 4096, RecorderStop 5000 5000 5000,
        DeleteRecording ''3000''] (initial True True))
     = [0]"
  by (simp add: run_def handler_defs initial_def Let_def toString_literals)


end
